theory Spec2Isabelle
  imports Main
begin

section \<open>Survey platform backend: dataset upload, response submission, CSV export\<close>

text \<open>
  The handlers of \<^verbatim>\<open>src/main.py\<close> that carry logic are embedded here:
  \<^verbatim>\<open>upload_dataset\<close> (lines 100-145), \<^verbatim>\<open>submit_response\<close> (lines 200-223) and
  \<^verbatim>\<open>export_csv\<close> with its generator \<^verbatim>\<open>iter_csv\<close> (lines 232-276).
  Every HTTPException and every implicit Python exception these lines can raise is a
  value of \<open>error\<close>.
\<close>

datatype error =
    UnsupportedFormat   \<comment> \<open>400, "Only CSV supported in this version"\<close>
  | EmptyInput          \<comment> \<open>400, "No rows found in CSV"\<close>
  | NotFound            \<comment> \<open>404, "Survey not found"\<close>
  | AuthRequired        \<comment> \<open>403, "Authentication required"\<close>
  | RateLimited         \<comment> \<open>429, "Response limit reached"\<close>
  | CsvError            \<comment> \<open>\<^verbatim>\<open>csv.Error\<close>: the reader refuses the content\<close>
  | ValidationError     \<comment> \<open>pydantic: a value does not have the type the schema declares\<close>
  | KeyError            \<comment> \<open>Python: subscript of a dict with a key it does not hold\<close>
  | TypeError           \<comment> \<open>Python: unhashable value used as a dict key\<close>

subsection \<open>Python dictionaries\<close>

text \<open>
  A Python dict keeps its keys in insertion order, and an assignment to a key already
  present replaces the value in place. It is an association list here; \<open>eq\<close> is the
  equality the dict compares keys with.
\<close>

type_synonym ('k, 'v) pydict = "('k \<times> 'v) list"

fun dict_set :: "('k \<Rightarrow> 'k \<Rightarrow> bool) \<Rightarrow> ('k, 'v) pydict \<Rightarrow> 'k \<Rightarrow> 'v \<Rightarrow> ('k, 'v) pydict" where
  "dict_set eq [] k v = [(k, v)]"
| "dict_set eq ((k', v') # d) k v =
     (if eq k' k then (k', v) # d else (k', v') # dict_set eq d k v)"

fun dict_find :: "('k \<Rightarrow> 'k \<Rightarrow> bool) \<Rightarrow> ('k, 'v) pydict \<Rightarrow> 'k \<Rightarrow> 'v option" where
  "dict_find eq [] k = None"
| "dict_find eq ((k', v') # d) k = (if eq k' k then Some v' else dict_find eq d k)"

definition keys :: "('k, 'v) pydict \<Rightarrow> 'k list" where
  "keys d = map fst d"

text \<open>\<^verbatim>\<open>dict(pairs)\<close> and a dict comprehension: one assignment per pair, in order.\<close>

definition dict_of :: "('k \<Rightarrow> 'k \<Rightarrow> bool) \<Rightarrow> ('k \<times> 'v) list \<Rightarrow> ('k, 'v) pydict" where
  "dict_of eq ps = foldl (\<lambda>d (k, v). dict_set eq d k v) [] ps"

subsection \<open>Dataset upload (\<^verbatim>\<open>upload_dataset\<close>)\<close>

text \<open>
  \<^verbatim>\<open>csv.DictReader\<close> (CPython's \<^verbatim>\<open>Lib/csv.py\<close>) is called with its defaults, so
  \<^verbatim>\<open>restkey\<close> and \<^verbatim>\<open>restval\<close> are both \<^verbatim>\<open>None\<close>. A key of a row dict is a header
  name (\<open>Some name\<close>) or the restkey (\<open>None\<close>); a value is a field, \<^verbatim>\<open>None\<close> for a
  column a short row does not reach, or the list of the fields beyond the header.
\<close>

type_synonym colkey = "string option"

datatype cell = Text string | NoneVal | Rest "string list"

type_synonym csvrow = "(colkey, cell) pydict"

text \<open>
  One \<^verbatim>\<open>__next__\<close> of the DictReader on a non-blank record \<^verbatim>\<open>row\<close>:
  \<^verbatim>\<open>
  d = dict(zip(self.fieldnames, row))
  lf = len(self.fieldnames); lr = len(row)
  if lf < lr:   d[self.restkey] = row[lf:]
  elif lf > lr:
      for key in self.fieldnames[lr:]: d[key] = self.restval
  \<close>
\<close>

definition dict_row :: "string list \<Rightarrow> string list \<Rightarrow> csvrow" where
  "dict_row fieldnames row =
     (let d = dict_of (=) (zip (map Some fieldnames) (map Text row));
          lf = length fieldnames;
          lr = length row
      in if lf < lr then dict_set (=) d None (Rest (drop lf row))
         else if lf > lr then foldl (\<lambda>d key. dict_set (=) d (Some key) NoneVal) d (drop lr fieldnames)
         else d)"

text \<open>
  \<^verbatim>\<open>list(csv.DictReader(StringIO(content)))\<close>. The argument is the list of records that
  \<^verbatim>\<open>csv.reader\<close> (the C tokenizer, with the decoding before it) yields for the content;
  a blank line is the record \<open>[]\<close>. The first record is the header, whatever it holds;
  later blank records are skipped (\<^verbatim>\<open>while row == []: row = next(self.reader)\<close>).
\<close>

fun DictReader :: "string list list \<Rightarrow> csvrow list" where
  "DictReader [] = []"
| "DictReader (fieldnames # recs) = map (dict_row fieldnames) (filter (\<lambda>row. row \<noteq> []) recs)"

text \<open>\<^verbatim>\<open>r.get(c)\<close>: the value, or \<^verbatim>\<open>None\<close> when the key is missing.\<close>

definition row_get :: "csvrow \<Rightarrow> colkey \<Rightarrow> cell" where
  "row_get r c = (case dict_find (=) r c of None \<Rightarrow> NoneVal | Some v \<Rightarrow> v)"

text \<open>
  The body of the inner loop (lines 121-123):
  \<^verbatim>\<open>
  v = r.get(c)
  if v is not None and v not in distincts[c]:
      distincts[c].append(v)
  \<close>
  \<^verbatim>\<open>distincts[c]\<close> raises KeyError for a key the dict does not hold.
\<close>

definition visit :: "(colkey, cell list) pydict \<Rightarrow> csvrow \<Rightarrow> colkey \<Rightarrow> error + (colkey, cell list) pydict" where
  "visit distincts r c =
     (let v = row_get r c in
      if v \<noteq> NoneVal then
        (case dict_find (=) distincts c of
           None \<Rightarrow> Inl KeyError
         | Some seen \<Rightarrow> if v \<notin> set seen then Inr (dict_set (=) distincts c (seen @ [v])) else Inr distincts)
      else Inr distincts)"

text \<open>A \<^verbatim>\<open>for\<close> loop whose body may raise: the first error ends it.\<close>

fun for_each :: "('s \<Rightarrow> 'a \<Rightarrow> error + 's) \<Rightarrow> 's \<Rightarrow> 'a list \<Rightarrow> error + 's" where
  "for_each body s [] = Inr s"
| "for_each body s (x # xs) = (case body s x of Inl e \<Rightarrow> Inl e | Inr s' \<Rightarrow> for_each body s' xs)"

text \<open>The value the handler returns (line 145), without the generated id.\<close>

record analysis =
  columns :: "colkey list"
  rows :: nat
  distincts :: "(colkey, cell list) pydict"

text \<open>ASCII \<^verbatim>\<open>str.lower\<close> and \<^verbatim>\<open>str.endswith\<close>; the file name is ASCII text here.\<close>

definition lower_char :: "char \<Rightarrow> char" where
  "lower_char c =
     (let n = (of_char c :: nat) in if 65 \<le> n \<and> n \<le> 90 then char_of (n + 32) else c)"

definition lower :: "string \<Rightarrow> string" where
  "lower s = map lower_char s"

definition endswith :: "string \<Rightarrow> string \<Rightarrow> bool" where
  "endswith s suffix = (length suffix \<le> length s \<and> drop (length s - length suffix) s = suffix)"

text \<open>Lines 118-123: the dict comprehension and the two nested loops.\<close>

definition column_distincts :: "csvrow list \<Rightarrow> colkey list \<Rightarrow> error + (colkey, cell list) pydict" where
  "column_distincts rws cols =
     for_each (\<lambda>ds r. for_each (\<lambda>ds c. visit ds r c) ds cols)
       (dict_of (=) (map (\<lambda>c. (c, [])) cols)) rws"

text \<open>
  \<^verbatim>\<open>src/schemas.py\<close>, lines 27-33 and 44-47. A pydantic model checks the declared
  types of its fields when it is built and raises ValidationError. Of
  \<^verbatim>\<open>DatasetVersion\<close> (line 125) the fields \<^verbatim>\<open>columns: List[str]\<close> and
  \<^verbatim>\<open>distincts: Dict[str, List[str]]\<close> can fail; of \<^verbatim>\<open>DatasetRow\<close> (line 143) the field
  \<^verbatim>\<open>data: Dict[str, Any]\<close>, through its keys.
\<close>

definition is_str :: "cell \<Rightarrow> bool" where
  "is_str v = (case v of Text s \<Rightarrow> True | NoneVal \<Rightarrow> False | Rest xs \<Rightarrow> False)"

definition DatasetVersion_ok :: "colkey list \<Rightarrow> (colkey, cell list) pydict \<Rightarrow> bool" where
  "DatasetVersion_ok cols ds =
     (list_all (\<lambda>c. c \<noteq> None) cols
      \<and> list_all (\<lambda>(k, vs). k \<noteq> None \<and> list_all is_str vs) ds)"

definition DatasetRow_ok :: "csvrow \<Rightarrow> bool" where
  "DatasetRow_ok r = list_all (\<lambda>(k, v). k \<noteq> None) r"

text \<open>
  The handler, lines 108-145. The second argument is what \<^verbatim>\<open>csv.reader\<close> makes of the
  decoded content: the records, or \<open>None\<close> when it raises \<^verbatim>\<open>csv.Error\<close> (a carriage
  return inside an unquoted field, a field over the size limit), which
  \<^verbatim>\<open>list(reader)\<close> on line 113 lets through. The writes of lines 139 and 143 go to
  the store and leave no trace in the result; the rows are built, and so checked, one
  after the other before each write.
\<close>

definition upload_dataset :: "string \<Rightarrow> string list list option \<Rightarrow> error + analysis" where
  "upload_dataset filename parsed =
     (if \<not> endswith (lower filename) ''.csv'' then Inl UnsupportedFormat
      else
        (case parsed of
           None \<Rightarrow> Inl CsvError
         | Some records \<Rightarrow>
             (case DictReader records of
                [] \<Rightarrow> Inl EmptyInput
              | r0 # rest \<Rightarrow>
                  (let rws = r0 # rest;
                       cols = keys r0
                   in case column_distincts rws cols of
                        Inl e \<Rightarrow> Inl e
                      | Inr ds \<Rightarrow>
                          if \<not> DatasetVersion_ok cols ds then Inl ValidationError
                          else if \<not> list_all DatasetRow_ok rws then Inl ValidationError
                          else Inr \<lparr>columns = cols, rows = length rws, distincts = ds\<rparr>))))"

subsection \<open>Response submission (\<^verbatim>\<open>submit_response\<close>)\<close>

text \<open>
  The fields of \<^verbatim>\<open>schemas.SurveySettings\<close> and \<^verbatim>\<open>schemas.SurveyResponse\<close> that the
  handler reads, with the types the schema gives them. A missing \<^verbatim>\<open>settings\<close> document
  reads as \<^verbatim>\<open>require_auth = False\<close> and no limit, which is a value of this record.
\<close>

record survey_settings =
  require_auth :: bool
  response_limit_per_user :: "int option"

record survey_response =
  survey_id :: string
  submitted_by :: "string option"
  anonymous :: bool

text \<open>Python truthiness of an \<^verbatim>\<open>Optional[str]\<close> and of an \<^verbatim>\<open>Optional[int]\<close>.\<close>

definition truthy_str :: "string option \<Rightarrow> bool" where
  "truthy_str s = (case s of None \<Rightarrow> False | Some t \<Rightarrow> t \<noteq> [])"

definition truthy_int :: "int option \<Rightarrow> bool" where
  "truthy_int n = (case n of None \<Rightarrow> False | Some i \<Rightarrow> i \<noteq> 0)"

text \<open>
  Modelled from the spec: \<^verbatim>\<open>database.py\<close> is not among the sources. The collection
  \<^verbatim>\<open>surveyresponse\<close> is the list of the documents stored so far;
  \<^verbatim>\<open>countRecords(collectionName, filter)\<close> counts the documents whose fields equal the
  filter's, and \<^verbatim>\<open>createRecord(collectionName, document)\<close> adds the document.
\<close>

definition count_documents :: "survey_response list \<Rightarrow> string \<Rightarrow> string option \<Rightarrow> nat" where
  "count_documents coll sid who =
     length (filter (\<lambda>d. survey_id d = sid \<and> submitted_by d = who) coll)"

definition create_document :: "survey_response list \<Rightarrow> survey_response \<Rightarrow> survey_response list" where
  "create_document coll doc = coll @ [doc]"

text \<open>
  Lines 203-223. The first argument is what \<^verbatim>\<open>find_one\<close> returned for the survey, reduced
  to its settings, once \<^verbatim>\<open>oid\<close> has accepted the id; the result is the collection after
  the insertion, or the rejection.
\<close>

definition submit_response ::
  "survey_settings option \<Rightarrow> string \<Rightarrow> survey_response \<Rightarrow> survey_response list
     \<Rightarrow> error + survey_response list" where
  "submit_response survey sid payload coll =
     (case survey of
        None \<Rightarrow> Inl NotFound
      | Some settings \<Rightarrow>
          if require_auth settings \<and> \<not> truthy_str (submitted_by payload) \<and> \<not> anonymous payload
          then Inl AuthRequired
          else if truthy_int (response_limit_per_user settings) \<and> truthy_str (submitted_by payload)
                  \<and> (case response_limit_per_user settings of
                        None \<Rightarrow> False
                      | Some limit \<Rightarrow> int (count_documents coll sid (submitted_by payload)) \<ge> limit)
          then Inl RateLimited
          else Inr (create_document coll payload))"

text \<open>
  The submission policy as the specification words it: a limit is "specified" when the
  field is set, and an identity is "carried" when the field is set.
\<close>

definition spec_submit_decision ::
  "survey_settings \<Rightarrow> survey_response \<Rightarrow> nat \<Rightarrow> error option" where
  "spec_submit_decision settings payload prior =
     (if require_auth settings \<and> submitted_by payload = None \<and> \<not> anonymous payload
      then Some AuthRequired
      else if (case response_limit_per_user settings of
                 None \<Rightarrow> False
               | Some limit \<Rightarrow> int prior \<ge> limit)
              \<and> submitted_by payload \<noteq> None
      then Some RateLimited
      else None)"

subsection \<open>CSV export (\<^verbatim>\<open>export_csv\<close>, \<^verbatim>\<open>iter_csv\<close>)\<close>

text \<open>
  An answer entry is a \<^verbatim>\<open>Dict[str, Any]\<close>: its values are arbitrary JSON. Floats are
  left out.
\<close>

datatype json =
    JNull
  | JBool bool
  | JInt int
  | JStr string
  | JList "json list"
  | JObj "(string \<times> json) list"

fun truthy :: "json \<Rightarrow> bool" where
  "truthy JNull = False"
| "truthy (JBool b) = b"
| "truthy (JInt n) = (n \<noteq> 0)"
| "truthy (JStr s) = (s \<noteq> [])"
| "truthy (JList xs) = (xs \<noteq> [])"
| "truthy (JObj kvs) = (kvs \<noteq> [])"

text \<open>\<^verbatim>\<open>a or b\<close>\<close>

definition py_or :: "json \<Rightarrow> json \<Rightarrow> json" where
  "py_or a b = (if truthy a then a else b)"

text \<open>Lists and dicts cannot be dict keys; \<^verbatim>\<open>True == 1\<close> and \<^verbatim>\<open>False == 0\<close> as keys.\<close>

fun hashable :: "json \<Rightarrow> bool" where
  "hashable (JList xs) = False"
| "hashable (JObj kvs) = False"
| "hashable v = True"

fun key_eq :: "json \<Rightarrow> json \<Rightarrow> bool" where
  "key_eq (JBool b) (JInt n) = (n = (if b then 1 else 0))"
| "key_eq (JInt n) (JBool b) = (n = (if b then 1 else 0))"
| "key_eq a b = (a = b)"

text \<open>\<^verbatim>\<open>a.get(name)\<close> on a document\<close>

definition doc_get :: "(string \<times> json) list \<Rightarrow> string \<Rightarrow> json" where
  "doc_get a name = (case dict_find (=) a name of None \<Rightarrow> JNull | Some v \<Rightarrow> v)"

text \<open>The fields of \<^verbatim>\<open>schemas.Question\<close> that the export reads.\<close>

record question =
  q_id :: string
  q_text :: string
  q_export_header :: "string option"

text \<open>
  A stored response as the export reads it: \<^verbatim>\<open>r.get("answers", [])\<close>, and the three meta
  fields, each \<open>None\<close> when the document has no such key. \<open>created_at\<close> holds the text
  \<^verbatim>\<open>str\<close> gives for the stored value.
\<close>

record response_doc =
  answers :: "(string \<times> json) list list"
  r_submitted_by :: "json option"
  r_anonymous :: "json option"
  r_created_at :: "string option"

text \<open>Line 244: \<^verbatim>\<open>q.get("export_header") or q.get("text") or q.get("id")\<close>\<close>

definition header_label :: "question \<Rightarrow> string" where
  "header_label q =
     (if truthy_str (q_export_header q) then (case q_export_header q of Some h \<Rightarrow> h | None \<Rightarrow> [])
      else if q_text q \<noteq> [] then q_text q
      else q_id q)"

definition export_headers :: "question list \<Rightarrow> string list" where
  "export_headers questions =
     map header_label questions @ [''submitted_by'', ''anonymous'', ''created_at'']"

text \<open>Line 256: the key of one answer entry, and the dict comprehension over the entries.\<close>

definition answer_key :: "(string \<times> json) list \<Rightarrow> json" where
  "answer_key a = py_or (py_or (doc_get a ''questionId'') (doc_get a ''id'')) (doc_get a ''text'')"

fun build_ans_map :: "(json, json) pydict \<Rightarrow> (string \<times> json) list list \<Rightarrow> error + (json, json) pydict" where
  "build_ans_map m [] = Inr m"
| "build_ans_map m (a # as) =
     (let k = answer_key a; v = doc_get a ''value''
      in if \<not> hashable k then Inl TypeError else build_ans_map (dict_set key_eq m k v) as)"

text \<open>\<^verbatim>\<open>ans_map.get(k)\<close>\<close>

definition ans_get :: "(json, json) pydict \<Rightarrow> json \<Rightarrow> json" where
  "ans_get m k = (case dict_find key_eq m k of None \<Rightarrow> JNull | Some v \<Rightarrow> v)"

text \<open>
  Lines 260-263:
  \<^verbatim>\<open>
  val = ans_map.get(q.get("id"))
  if val is None:
      val = ans_map.get(q.get("text"))
  row.append(val if val is not None else "")
  \<close>
\<close>

definition cell_value :: "(json, json) pydict \<Rightarrow> question \<Rightarrow> json" where
  "cell_value ans_map q =
     (let val = ans_get ans_map (JStr (q_id q));
          val = (if val = JNull then ans_get ans_map (JStr (q_text q)) else val)
      in if val \<noteq> JNull then val else JStr [])"

text \<open>Lines 264-268: the three meta cells.\<close>

definition meta_cells :: "response_doc \<Rightarrow> json list" where
  "meta_cells r =
     [case r_submitted_by r of None \<Rightarrow> JStr [] | Some v \<Rightarrow> v,
      case r_anonymous r of None \<Rightarrow> JBool False | Some v \<Rightarrow> v,
      JStr (case r_created_at r of None \<Rightarrow> [] | Some s \<Rightarrow> s)]"

text \<open>The row handed to \<^verbatim>\<open>writer.writerow\<close> for one response.\<close>

definition response_row :: "question list \<Rightarrow> response_doc \<Rightarrow> error + json list" where
  "response_row questions r =
     (case build_ans_map [] (answers r) of
        Inl e \<Rightarrow> Inl e
      | Inr ans_map \<Rightarrow> Inr (map (cell_value ans_map) questions @ meta_cells r))"

text \<open>
  The generator: the rows it has yielded, and the exception that ended it, if one did.
  The header row is yielded before any response is read.
\<close>

fun emit_rows :: "question list \<Rightarrow> response_doc list \<Rightarrow> json list list \<times> error option" where
  "emit_rows questions [] = ([], None)"
| "emit_rows questions (r # rs) =
     (case response_row questions r of
        Inl e \<Rightarrow> ([], Some e)
      | Inr row \<Rightarrow> (case emit_rows questions rs of (out, err) \<Rightarrow> (row # out, err)))"

definition iter_csv :: "question list \<Rightarrow> response_doc list \<Rightarrow> json list list \<times> error option" where
  "iter_csv questions responses =
     (case emit_rows questions responses of
        (out, err) \<Rightarrow> (map JStr (export_headers questions) # out, err))"

text \<open>
  The handler: the survey must exist; its questions and the stored responses feed the
  generator.
\<close>

definition export_csv ::
  "question list option \<Rightarrow> response_doc list \<Rightarrow> error + (json list list \<times> error option)" where
  "export_csv survey responses =
     (case survey of
        None \<Rightarrow> Inl NotFound
      | Some questions \<Rightarrow> Inr (iter_csv questions responses))"

text \<open>
  The cell as the specification words it: the value stored under the question's id;
  when the map has no such key, the value under the question's text; when it has
  neither key, the empty string.
\<close>

definition spec_cell :: "(json, json) pydict \<Rightarrow> question \<Rightarrow> json" where
  "spec_cell ans_map q =
     (case dict_find key_eq ans_map (JStr (q_id q)) of
        Some v \<Rightarrow> v
      | None \<Rightarrow>
          (case dict_find key_eq ans_map (JStr (q_text q)) of
             Some v \<Rightarrow> v
           | None \<Rightarrow> JStr []))"

text \<open>
  "Later entries overwrite earlier ones": the value the map holds for a string key is
  the \<^verbatim>\<open>value\<close> of the last answer entry whose key is that string, and null when no
  entry has it.
\<close>

definition last_answer_value :: "(string \<times> json) list list \<Rightarrow> string \<Rightarrow> json" where
  "last_answer_value as s =
     (case find (\<lambda>a. answer_key a = JStr s) (rev as) of
        None \<Rightarrow> JNull
      | Some a \<Rightarrow> doc_get a ''value'')"

subsection \<open>Notions the statements use\<close>

text \<open>
  What lines 121-123 do to one column's list for one value \<open>v = r.get(c)\<close>, and the
  position at which a value first occurs in a list (the length of the list when it does
  not occur).
\<close>

definition add_val :: "cell list \<Rightarrow> cell \<Rightarrow> cell list" where
  "add_val seen v = (if v \<noteq> NoneVal \<and> v \<notin> set seen then seen @ [v] else seen)"

fun first_index :: "'a list \<Rightarrow> 'a \<Rightarrow> nat" where
  "first_index [] v = 0"
| "first_index (x # xs) v = (if x = v then 0 else Suc (first_index xs v))"

section \<open>Response submission: the policy\<close>

text \<open>
  C6 (as the code has it). For a survey that exists, the submission is rejected with
  AuthRequired exactly when \<open>require_auth\<close> holds, the response carries no non-empty
  submitter identity and it is not marked anonymous. Otherwise it is rejected with
  RateLimited exactly when \<open>response_limit_per_user\<close> is set to a non-zero limit, the
  response carries a non-empty submitter identity and the number of stored responses
  of that identity for the survey is at least the limit. Otherwise the response is
  stored.
\<close>

theorem submit_response_policy:
  "(submit_response (Some s) sid p coll = Inl AuthRequired)
     = (require_auth s \<and> \<not> truthy_str (submitted_by p) \<and> \<not> anonymous p)
   \<and> (\<not> (require_auth s \<and> \<not> truthy_str (submitted_by p) \<and> \<not> anonymous p) \<longrightarrow>
        (submit_response (Some s) sid p coll = Inl RateLimited)
          = (truthy_str (submitted_by p) \<and>
             (\<exists>limit. response_limit_per_user s = Some limit \<and> limit \<noteq> 0
                     \<and> limit \<le> int (count_documents coll sid (submitted_by p)))))
   \<and> (submit_response (Some s) sid p coll \<noteq> Inl AuthRequired \<and>
      submit_response (Some s) sid p coll \<noteq> Inl RateLimited \<longrightarrow>
        submit_response (Some s) sid p coll = Inr (coll @ [p]))"
  by (auto simp: submit_response_def truthy_int_def create_document_def split: option.splits)

text \<open>
  The three outcomes at concrete inputs: no identity on a survey that requires
  authentication; a second response of "u1" under a limit of 1; a first response of
  "u1" under the same limit.
\<close>

theorem submit_response_policy_witness:
  "submit_response (Some \<lparr>require_auth = True, response_limit_per_user = Some 1\<rparr>) ''s1''
      \<lparr>survey_id = ''s1'', submitted_by = None, anonymous = False\<rparr> [] = Inl AuthRequired
   \<and> submit_response (Some \<lparr>require_auth = True, response_limit_per_user = Some 1\<rparr>) ''s1''
      \<lparr>survey_id = ''s1'', submitted_by = Some ''u1'', anonymous = False\<rparr>
      [\<lparr>survey_id = ''s1'', submitted_by = Some ''u1'', anonymous = False\<rparr>] = Inl RateLimited
   \<and> submit_response (Some \<lparr>require_auth = True, response_limit_per_user = Some 1\<rparr>) ''s1''
      \<lparr>survey_id = ''s1'', submitted_by = Some ''u1'', anonymous = False\<rparr> []
      = Inr [\<lparr>survey_id = ''s1'', submitted_by = Some ''u1'', anonymous = False\<rparr>]"
  using
    submit_response_policy [of "\<lparr>require_auth = True, response_limit_per_user = Some 1\<rparr>" "''s1''"
      "\<lparr>survey_id = ''s1'', submitted_by = None, anonymous = False\<rparr>" "[]"]
    submit_response_policy [of "\<lparr>require_auth = True, response_limit_per_user = Some 1\<rparr>" "''s1''"
      "\<lparr>survey_id = ''s1'', submitted_by = Some ''u1'', anonymous = False\<rparr>"
      "[\<lparr>survey_id = ''s1'', submitted_by = Some ''u1'', anonymous = False\<rparr>]"]
    submit_response_policy [of "\<lparr>require_auth = True, response_limit_per_user = Some 1\<rparr>" "''s1''"
      "\<lparr>survey_id = ''s1'', submitted_by = Some ''u1'', anonymous = False\<rparr>" "[]"]
  by (simp add: truthy_str_def count_documents_def)

text \<open>
  C6 as the specification states it fails for a limit of 0: with no stored response the
  stated rule rejects "u1" with RateLimited (0 stored responses reach the limit 0),
  and the handler stores the response.
\<close>

theorem submit_response_zero_limit_counterexample:
  "submit_response (Some \<lparr>require_auth = False, response_limit_per_user = Some 0\<rparr>) ''s1''
      \<lparr>survey_id = ''s1'', submitted_by = Some ''u1'', anonymous = False\<rparr> []
    = Inr [\<lparr>survey_id = ''s1'', submitted_by = Some ''u1'', anonymous = False\<rparr>]
   \<and> spec_submit_decision \<lparr>require_auth = False, response_limit_per_user = Some 0\<rparr>
        \<lparr>survey_id = ''s1'', submitted_by = Some ''u1'', anonymous = False\<rparr>
        (count_documents [] ''s1'' (Some ''u1'')) = Some RateLimited"
  by (simp add: submit_response_def truthy_int_def truthy_str_def create_document_def
      spec_submit_decision_def count_documents_def)

text \<open>
  C10. When \<open>response_limit_per_user\<close> is unset or 0, or the response carries no
  non-empty submitter identity, the submission is never rejected with RateLimited,
  whatever the collection holds.
\<close>

theorem submit_response_limit_skipped:
  "response_limit_per_user s = None \<or> response_limit_per_user s = Some 0
     \<or> \<not> truthy_str (submitted_by p)
   \<Longrightarrow> submit_response (Some s) sid p coll \<noteq> Inl RateLimited"
  by (auto simp: submit_response_def truthy_int_def split: option.splits)

theorem submit_response_limit_skipped_witness:
  "submit_response (Some \<lparr>require_auth = False, response_limit_per_user = Some 0\<rparr>) ''s1''
      \<lparr>survey_id = ''s1'', submitted_by = Some ''u1'', anonymous = False\<rparr>
      [\<lparr>survey_id = ''s1'', submitted_by = Some ''u1'', anonymous = False\<rparr>,
       \<lparr>survey_id = ''s1'', submitted_by = Some ''u1'', anonymous = False\<rparr>] \<noteq> Inl RateLimited
   \<and> submit_response (Some \<lparr>require_auth = False, response_limit_per_user = Some 1\<rparr>) ''s1''
      \<lparr>survey_id = ''s1'', submitted_by = None, anonymous = True\<rparr>
      [\<lparr>survey_id = ''s1'', submitted_by = None, anonymous = True\<rparr>] \<noteq> Inl RateLimited"
  using
    submit_response_limit_skipped [of "\<lparr>require_auth = False, response_limit_per_user = Some 0\<rparr>"
      "\<lparr>survey_id = ''s1'', submitted_by = Some ''u1'', anonymous = False\<rparr>" "''s1''"
      "[\<lparr>survey_id = ''s1'', submitted_by = Some ''u1'', anonymous = False\<rparr>,
        \<lparr>survey_id = ''s1'', submitted_by = Some ''u1'', anonymous = False\<rparr>]"]
    submit_response_limit_skipped [of "\<lparr>require_auth = False, response_limit_per_user = Some 1\<rparr>"
      "\<lparr>survey_id = ''s1'', submitted_by = None, anonymous = True\<rparr>" "''s1''"
      "[\<lparr>survey_id = ''s1'', submitted_by = None, anonymous = True\<rparr>]"]
  by (simp add: truthy_str_def)

section \<open>CSV export\<close>

text \<open>
  C5. The header row is, for each question in the survey's order, its
  \<open>export_header\<close> if that is set and non-empty, else its text if non-empty, else its
  id, followed by exactly the three headers \<open>submitted_by\<close>, \<open>anonymous\<close> and
  \<open>created_at\<close>; it is the first row the generator yields.
\<close>

theorem export_header_row:
  "export_headers qs =
     map (\<lambda>q. (case q_export_header q of
                 Some h \<Rightarrow> if h \<noteq> [] then h else if q_text q \<noteq> [] then q_text q else q_id q
               | None \<Rightarrow> if q_text q \<noteq> [] then q_text q else q_id q)) qs
       @ [''submitted_by'', ''anonymous'', ''created_at'']
   \<and> hd (fst (iter_csv qs rs)) = map JStr (export_headers qs)"
  by (auto simp: export_headers_def header_label_def truthy_str_def iter_csv_def
      split: option.splits prod.splits)

theorem export_header_row_witness:
  "export_headers
     [\<lparr>q_id = ''q1'', q_text = ''Full question'', q_export_header = Some ''Q1''\<rparr>,
      \<lparr>q_id = ''q2'', q_text = ''Age?'', q_export_header = None\<rparr>,
      \<lparr>q_id = ''q3'', q_text = [], q_export_header = Some []\<rparr>]
   = [''Q1'', ''Age?'', ''q3'', ''submitted_by'', ''anonymous'', ''created_at'']"
  using export_header_row
    [of "[\<lparr>q_id = ''q1'', q_text = ''Full question'', q_export_header = Some ''Q1''\<rparr>,
          \<lparr>q_id = ''q2'', q_text = ''Age?'', q_export_header = None\<rparr>,
          \<lparr>q_id = ''q3'', q_text = [], q_export_header = Some []\<rparr>]" "[]"]
  by simp

subsection \<open>The answer map\<close>

lemma key_eq_JStr_right [simp]: "key_eq k (JStr s) = (k = JStr s)"
  by (cases k) auto

lemma key_eq_JStr_left [simp]: "key_eq (JStr s) k = (k = JStr s)"
  by (cases k) auto

lemma dict_find_set_JStr:
  "dict_find key_eq (dict_set key_eq m k v) (JStr s)
     = (if k = JStr s then Some v else dict_find key_eq m (JStr s))"
  by (induction m) auto

lemma find_snoc:
  "find P (xs @ [x]) = (case find P xs of Some y \<Rightarrow> Some y | None \<Rightarrow> if P x then Some x else None)"
  by (induction xs) auto

lemma build_ans_map_lookup:
  "build_ans_map m0 as = Inr m \<Longrightarrow>
   dict_find key_eq m (JStr s) =
     (case find (\<lambda>a. answer_key a = JStr s) (rev as) of
        Some a \<Rightarrow> Some (doc_get a ''value'')
      | None \<Rightarrow> dict_find key_eq m0 (JStr s))"
proof (induction as arbitrary: m0)
  case Nil
  then show ?case by simp
next
  case (Cons a as)
  from Cons.prems have b:
    "build_ans_map (dict_set key_eq m0 (answer_key a) (doc_get a ''value'')) as = Inr m"
    by (auto simp: Let_def split: if_splits)
  show ?case
    using Cons.IH [OF b]
    by (auto simp: find_snoc dict_find_set_JStr split: option.splits)
qed

text \<open>The map is built exactly when no entry's key is a list or an object.\<close>

lemma build_ans_map_ok:
  "\<forall>a\<in>set as. hashable (answer_key a) \<Longrightarrow> \<exists>m. build_ans_map m0 as = Inr m"
  by (induction as arbitrary: m0) (auto simp: Let_def)

lemma build_ans_map_fails:
  "\<not> (\<forall>a\<in>set as. hashable (answer_key a)) \<Longrightarrow> build_ans_map m0 as = Inl TypeError"
  by (induction as arbitrary: m0) (auto simp: Let_def)

lemma ans_get_built:
  "build_ans_map [] as = Inr m \<Longrightarrow> ans_get m (JStr s) = last_answer_value as s"
  by (auto simp: ans_get_def last_answer_value_def dest!: build_ans_map_lookup [where s = s]
      split: option.splits)

text \<open>
  C3 (as the code has it). The key of an answer entry is its \<open>questionId\<close> if truthy,
  else its \<open>id\<close> if truthy, else its \<open>text\<close>. For a response none of whose entries has a
  list or an object as key, the row is produced, and the cell of each question is the
  last value stored under the question's id; when that is missing or null, the last
  value stored under the question's text; when that too is missing or null, the empty
  string. The three meta cells follow.
\<close>

theorem export_cell_values:
  assumes "\<forall>a\<in>set (answers r). hashable (answer_key a)"
  shows "response_row qs r =
     Inr (map (\<lambda>q. let v = last_answer_value (answers r) (q_id q);
                       w = (if v = JNull then last_answer_value (answers r) (q_text q) else v)
                   in if w = JNull then JStr [] else w) qs
          @ meta_cells r)
   \<and> answer_key a =
       (if truthy (doc_get a ''questionId'') then doc_get a ''questionId''
        else if truthy (doc_get a ''id'') then doc_get a ''id''
        else doc_get a ''text'')"
proof -
  from build_ans_map_ok [OF assms] obtain m where m: "build_ans_map [] (answers r) = Inr m"
    by blast
  show ?thesis
    by (simp add: response_row_def m cell_value_def ans_get_built [OF m] Let_def
        answer_key_def py_or_def)
qed

text \<open>
  Questions q1 (answered twice by id: the later value wins), "Age?" (answered by text
  only) and q3 (not answered).
\<close>

theorem export_cell_values_witness:
  "response_row
     [\<lparr>q_id = ''q1'', q_text = ''Sure?'', q_export_header = None\<rparr>,
      \<lparr>q_id = ''q2'', q_text = ''Age?'', q_export_header = None\<rparr>,
      \<lparr>q_id = ''q3'', q_text = ''Why?'', q_export_header = None\<rparr>]
     \<lparr>answers = [[(''questionId'', JStr ''q1''), (''value'', JStr ''no'')],
                 [(''text'', JStr ''Age?''), (''value'', JInt 30)],
                 [(''questionId'', JStr []), (''id'', JStr ''q1''), (''value'', JStr ''yes'')]],
       r_submitted_by = Some (JStr ''u1''), r_anonymous = Some (JBool False),
       r_created_at = Some ''2024-01-01''\<rparr>
   = Inr [JStr ''yes'', JInt 30, JStr [], JStr ''u1'', JBool False, JStr ''2024-01-01'']"
  using export_cell_values
    [of "\<lparr>answers = [[(''questionId'', JStr ''q1''), (''value'', JStr ''no'')],
                 [(''text'', JStr ''Age?''), (''value'', JInt 30)],
                 [(''questionId'', JStr []), (''id'', JStr ''q1''), (''value'', JStr ''yes'')]],
       r_submitted_by = Some (JStr ''u1''), r_anonymous = Some (JBool False),
       r_created_at = Some ''2024-01-01''\<rparr>"
     "[\<lparr>q_id = ''q1'', q_text = ''Sure?'', q_export_header = None\<rparr>,
      \<lparr>q_id = ''q2'', q_text = ''Age?'', q_export_header = None\<rparr>,
      \<lparr>q_id = ''q3'', q_text = ''Why?'', q_export_header = None\<rparr>]" "[]"]
  by (simp add: answer_key_def py_or_def doc_get_def last_answer_value_def meta_cells_def)

text \<open>
  C3 as the specification states it falls back to the text only when the id is not a
  key of the map. An entry keyed by the id with a null value is in the map: the stated
  rule gives null for the cell, and the code gives the value stored under the text.
\<close>

theorem export_cell_null_value_counterexample:
  "build_ans_map [] [[(''questionId'', JStr ''q1''), (''value'', JNull)],
                     [(''text'', JStr ''Age?''), (''value'', JStr ''5'')]]
     = Inr [(JStr ''q1'', JNull), (JStr ''Age?'', JStr ''5'')]
   \<and> cell_value [(JStr ''q1'', JNull), (JStr ''Age?'', JStr ''5'')]
        \<lparr>q_id = ''q1'', q_text = ''Age?'', q_export_header = None\<rparr> = JStr ''5''
   \<and> spec_cell [(JStr ''q1'', JNull), (JStr ''Age?'', JStr ''5'')]
        \<lparr>q_id = ''q1'', q_text = ''Age?'', q_export_header = None\<rparr> = JNull"
  by (simp add: answer_key_def py_or_def doc_get_def cell_value_def ans_get_def spec_cell_def)

subsection \<open>Null answers\<close>






subsection \<open>The shape of the table\<close>

text \<open>
  When no answer entry of any response has a list or an object as its key, the
  generator ends normally, yields one row per response after the header, and every
  row has one cell per question and three meta cells.
\<close>

lemma emit_rows_shape:
  "\<forall>r\<in>set rs. \<forall>a\<in>set (answers r). hashable (answer_key a) \<Longrightarrow>
   snd (emit_rows qs rs) = None \<and> length (fst (emit_rows qs rs)) = length rs
   \<and> (\<forall>row\<in>set (fst (emit_rows qs rs)). length row = length qs + 3)"
proof (induction rs)
  case Nil
  then show ?case by simp
next
  case (Cons r rs)
  then have "\<forall>a\<in>set (answers r). hashable (answer_key a)" by simp
  from build_ans_map_ok [OF this] obtain m where m: "build_ans_map [] (answers r) = Inr m"
    by blast
  with Cons show ?case
    by (auto simp: response_row_def meta_cells_def split: prod.splits)
qed

lemma iter_csv_shape:
  assumes "\<forall>r\<in>set rs. \<forall>a\<in>set (answers r). hashable (answer_key a)"
  shows "snd (iter_csv qs rs) = None"
    and "length (fst (iter_csv qs rs)) = length rs + 1"
    and "\<forall>row\<in>set (fst (iter_csv qs rs)). length row = length qs + 3"
  using emit_rows_shape [OF assms, of qs]
  by (auto simp: iter_csv_def export_headers_def split: prod.splits)

text \<open>
  C4 at a response whose answer entry has a list as \<open>questionId\<close>: the dict
  comprehension raises TypeError, the generator ends after the header row, and the
  table has 1 row where the claim promises 2.
\<close>

theorem export_unhashable_key_truncates:
  "iter_csv []
     [\<lparr>answers = [[(''questionId'', JList [JStr ''a'']), (''value'', JInt 1)]],
       r_submitted_by = Some JNull, r_anonymous = Some (JBool False), r_created_at = None\<rparr>]
   = ([[JStr ''submitted_by'', JStr ''anonymous'', JStr ''created_at'']], Some TypeError)"
  by (simp add: iter_csv_def response_row_def answer_key_def py_or_def doc_get_def
      export_headers_def)

section \<open>Dataset upload\<close>

subsection \<open>Dictionaries compared with \<open>(=)\<close>\<close>

lemma keys_dict_set:
  "keys (dict_set (=) d k v) = (if k \<in> set (keys d) then keys d else keys d @ [k])"
  by (induction d) (force simp: keys_def split: if_splits)+

lemma dict_find_dict_set:
  "dict_find (=) (dict_set (=) d k v) k' = (if k = k' then Some v else dict_find (=) d k')"
  by (induction d) auto

lemma dict_find_None_iff: "(dict_find (=) d k = None) = (k \<notin> set (keys d))"
  by (induction d) (force simp: keys_def split: if_splits)+

lemma dict_set_fresh: "k \<notin> set (keys d) \<Longrightarrow> dict_set (=) d k v = d @ [(k, v)]"
  by (induction d) (auto simp: keys_def)

lemma distinct_keys_dict_set: "distinct (keys d) \<Longrightarrow> distinct (keys (dict_set (=) d k v))"
  by (simp add: keys_dict_set)

lemma foldl_dict_set_fresh:
  "distinct (keys d @ map fst ps) \<Longrightarrow> foldl (\<lambda>d (k, v). dict_set (=) d k v) d ps = d @ ps"
proof (induction ps arbitrary: d)
  case Nil
  then show ?case by simp
next
  case (Cons p ps)
  obtain k v where p: "p = (k, v)" by (cases p)
  from Cons.prems have fresh: "k \<notin> set (keys d)" and rest: "distinct (keys (d @ [(k, v)]) @ map fst ps)"
    by (auto simp: p keys_def)
  show ?case
    using Cons.IH [OF rest] by (simp add: p dict_set_fresh [OF fresh])
qed

lemma foldl_dict_set_distinct:
  "distinct (keys d) \<Longrightarrow> distinct (keys (foldl (\<lambda>d (k, v). dict_set (=) d k v) d ps))"
  by (induction ps arbitrary: d) (auto simp: distinct_keys_dict_set split: prod.splits)

lemma dict_of_distinct: "distinct (map fst ps) \<Longrightarrow> dict_of (=) ps = ps"
  using foldl_dict_set_fresh [of "[]" ps] by (simp add: dict_of_def keys_def)

lemma distinct_keys_dict_of: "distinct (keys (dict_of (=) ps))"
  using foldl_dict_set_distinct [of "[]" ps] by (simp add: dict_of_def keys_def)

lemma foldl_restval_distinct:
  "distinct (keys d) \<Longrightarrow> distinct (keys (foldl (\<lambda>d key. dict_set (=) d (Some key) NoneVal) d ks))"
  by (induction ks arbitrary: d) (auto simp: distinct_keys_dict_set)

lemma distinct_keys_dict_row: "distinct (keys (dict_row H row))"
  by (auto simp: dict_row_def Let_def distinct_keys_dict_of distinct_keys_dict_set foldl_restval_distinct)


lemma visit_found:
  "dict_find (=) ds c = Some seen \<Longrightarrow>
   visit ds r c = Inr (dict_set (=) ds c (add_val seen (row_get r c)))
   \<or> (visit ds r c = Inr ds \<and> add_val seen (row_get r c) = seen)"
  by (auto simp: visit_def add_val_def Let_def)

lemma dict_set_same: "dict_find (=) d k = Some v \<Longrightarrow> dict_set (=) d k v = d"
  by (induction d) (auto split: if_splits)

lemma visit_Inr:
  "dict_find (=) ds c = Some seen \<Longrightarrow>
   visit ds r c = Inr (dict_set (=) ds c (add_val seen (row_get r c)))"
  using visit_found [of ds c seen r] by (auto simp: dict_set_same)

lemma add_val_idem: "add_val (add_val seen v) v = add_val seen v"
  by (simp add: add_val_def)

lemma scan_row:
  "set cols \<subseteq> set (keys ds) \<Longrightarrow>
   \<exists>ds'. for_each (\<lambda>ds c. visit ds r c) ds cols = Inr ds' \<and> keys ds' = keys ds
     \<and> (\<forall>c. dict_find (=) ds' c =
           (if c \<in> set cols then map_option (\<lambda>seen. add_val seen (row_get r c)) (dict_find (=) ds c)
            else dict_find (=) ds c))"
proof (induction cols arbitrary: ds)
  case Nil
  then show ?case by simp
next
  case (Cons c cols)
  from Cons.prems have "c \<in> set (keys ds)" by simp
  then obtain seen where seen: "dict_find (=) ds c = Some seen"
    using dict_find_None_iff [of ds c] by (cases "dict_find (=) ds c") auto
  let ?ds1 = "dict_set (=) ds c (add_val seen (row_get r c))"
  have v: "visit ds r c = Inr ?ds1" by (rule visit_Inr [OF seen])
  have k1: "keys ?ds1 = keys ds" using \<open>c \<in> set (keys ds)\<close> by (simp add: keys_dict_set)
  with Cons.prems have "set cols \<subseteq> set (keys ?ds1)" by simp
  from Cons.IH [OF this] obtain ds' where
    r: "for_each (\<lambda>ds c. visit ds r c) ?ds1 cols = Inr ds'" and k: "keys ds' = keys ?ds1"
    and f: "\<forall>c'. dict_find (=) ds' c' =
           (if c' \<in> set cols then map_option (\<lambda>seen. add_val seen (row_get r c')) (dict_find (=) ?ds1 c')
            else dict_find (=) ?ds1 c')"
    by blast
  show ?case
    using r k k1 f seen by (auto simp: v dict_find_dict_set add_val_idem)
qed

lemma scan_rows:
  "set cols \<subseteq> set (keys ds) \<Longrightarrow>
   \<exists>ds'. for_each (\<lambda>ds r. for_each (\<lambda>ds c. visit ds r c) ds cols) ds rws = Inr ds' \<and> keys ds' = keys ds
     \<and> (\<forall>c. dict_find (=) ds' c =
           (if c \<in> set cols
            then map_option (\<lambda>seen. foldl add_val seen (map (\<lambda>r. row_get r c) rws)) (dict_find (=) ds c)
            else dict_find (=) ds c))"
proof (induction rws arbitrary: ds)
  case Nil
  then show ?case by (simp add: option.map_ident)
next
  case (Cons r rws)
  from scan_row [OF Cons.prems, of r] obtain ds1 where
    r1: "for_each (\<lambda>ds c. visit ds r c) ds cols = Inr ds1" and k1: "keys ds1 = keys ds"
    and f1: "\<forall>c. dict_find (=) ds1 c =
           (if c \<in> set cols then map_option (\<lambda>seen. add_val seen (row_get r c)) (dict_find (=) ds c)
            else dict_find (=) ds c)"
    by blast
  from Cons.prems k1 have "set cols \<subseteq> set (keys ds1)" by simp
  from Cons.IH [OF this] obtain ds' where
    r: "for_each (\<lambda>ds r. for_each (\<lambda>ds c. visit ds r c) ds cols) ds1 rws = Inr ds'"
    and k: "keys ds' = keys ds1"
    and f: "\<forall>c. dict_find (=) ds' c =
           (if c \<in> set cols
            then map_option (\<lambda>seen. foldl add_val seen (map (\<lambda>r. row_get r c) rws)) (dict_find (=) ds1 c)
            else dict_find (=) ds1 c)"
    by blast
  show ?case
    using r k k1 f f1 r1 by (auto simp: option.map_comp comp_def)
qed


lemma first_index_append:
  "first_index (xs @ ys) x =
     (if x \<in> set xs then first_index xs x else length xs + first_index ys x)"
  by (induction xs) auto

lemma first_index_less: "x \<in> set xs \<Longrightarrow> first_index xs x < length xs"
  by (induction xs) auto

lemma foldl_add_val_set: "set (foldl add_val seen vs) = set seen \<union> (set vs - {NoneVal})"
  by (induction vs arbitrary: seen) (auto simp: add_val_def)

lemma foldl_add_val_distinct: "distinct seen \<Longrightarrow> distinct (foldl add_val seen vs)"
  by (induction vs arbitrary: seen) (auto simp: add_val_def)

lemma foldl_add_val_order:
  "i < j \<Longrightarrow> j < length (foldl add_val [] vs) \<Longrightarrow>
   first_index vs (foldl add_val [] vs ! i) < first_index vs (foldl add_val [] vs ! j)"
proof (induction vs arbitrary: i j rule: rev_induct)
  case Nil
  then show ?case by simp
next
  case (snoc v vs)
  let ?ds = "foldl add_val [] vs"
  have mem: "\<And>k. k < length ?ds \<Longrightarrow> ?ds ! k \<in> set vs"
    using foldl_add_val_set [of "[]" vs] nth_mem [of _ ?ds] by auto
  show ?case
  proof (cases "v \<noteq> NoneVal \<and> v \<notin> set ?ds")
    case False
    then have same: "add_val ?ds v = ?ds" by (auto simp: add_val_def)
    with snoc.prems have ij: "i < j" "j < length ?ds" by simp_all
    with mem have "?ds ! i \<in> set vs" "?ds ! j \<in> set vs" by simp_all
    with snoc.IH [OF ij] show ?thesis by (simp add: same first_index_append)
  next
    case True
    then have app: "add_val ?ds v = ?ds @ [v]" by (simp add: add_val_def)
    from True have vnew: "v \<notin> set vs" using foldl_add_val_set [of "[]" vs] by auto
    from snoc.prems app have j: "j \<le> length ?ds" and i: "i < j" by simp_all
    show ?thesis
    proof (cases "j < length ?ds")
      case True
      with i mem have "?ds ! i \<in> set vs" "?ds ! j \<in> set vs" by simp_all
      with snoc.IH [OF i True] i True show ?thesis
        by (simp add: app first_index_append nth_append)
    next
      case False
      with j have jl: "j = length ?ds" by simp
      with i mem have iv: "?ds ! i \<in> set vs" by simp
      from first_index_less [OF iv] vnew iv i jl show ?thesis
        by (simp add: app first_index_append nth_append)
    qed
  qed
qed

lemma dict_of_init:
  "distinct cols \<Longrightarrow> dict_of (=) (map (\<lambda>c. (c, [])) cols) = map (\<lambda>c. (c, [])) cols"
  by (rule dict_of_distinct) (simp add: comp_def)

lemma dict_find_init:
  "dict_find (=) (map (\<lambda>c. (c, [])) cols) c = (if c \<in> set cols then Some [] else None)"
  by (induction cols) auto

lemma column_distincts_ok:
  assumes dist: "distinct cols"
  shows "\<exists>ds. column_distincts rws cols = Inr ds \<and> keys ds = cols
         \<and> (\<forall>c\<in>set cols. dict_find (=) ds c =
               Some (foldl add_val [] (map (\<lambda>r. row_get r c) rws)))"
proof -
  let ?d0 = "map (\<lambda>c. (c, [] :: cell list)) cols"
  have k0: "keys ?d0 = cols" by (simp add: keys_def comp_def)
  have "set cols \<subseteq> set (keys ?d0)" by (simp add: keys_def comp_def)
  from scan_rows [OF this, of rws] obtain ds where
    r: "for_each (\<lambda>ds r. for_each (\<lambda>ds c. visit ds r c) ds cols) ?d0 rws = Inr ds"
    and k: "keys ds = keys ?d0"
    and f: "\<forall>c. dict_find (=) ds c =
           (if c \<in> set cols
            then map_option (\<lambda>seen. foldl add_val seen (map (\<lambda>r. row_get r c) rws))
                   (dict_find (=) ?d0 c)
            else dict_find (=) ?d0 c)"
    by blast
  have "column_distincts rws cols = Inr ds"
    using r by (simp add: column_distincts_def dict_of_init [OF dist])
  moreover have "\<forall>c\<in>set cols. dict_find (=) ds c =
               Some (foldl add_val [] (map (\<lambda>r. row_get r c) rws))"
    using f by (simp add: dict_find_init)
  moreover have "keys ds = cols" using k k0 by simp
  ultimately show ?thesis by (intro exI [of _ ds] conjI)
qed

lemma foldl_restval_fresh:
  "distinct (keys d @ map Some ks) \<Longrightarrow>
   foldl (\<lambda>d key. dict_set (=) d (Some key) NoneVal) d ks = d @ map (\<lambda>k. (Some k, NoneVal)) ks"
proof (induction ks arbitrary: d)
  case Nil
  then show ?case by simp
next
  case (Cons k ks)
  from Cons.prems have fresh: "Some k \<notin> set (keys d)"
    and rest: "distinct (keys (d @ [(Some k, NoneVal)]) @ map Some ks)"
    by (auto simp: keys_def)
  show ?case
    using Cons.IH [OF rest] by (simp add: dict_set_fresh [OF fresh])
qed

lemma keys_zip_fields:
  "keys (zip (map Some H) (map Text row)) = map Some (take (length row) H)"
  by (simp add: keys_def take_map [symmetric] map_fst_zip_take min_def)

lemma dict_row_distinct_header:
  assumes "distinct H"
  shows "dict_row H row =
     zip (map Some H) (map Text row)
     @ (if length H < length row then [(None, Rest (drop (length H) row))]
        else map (\<lambda>k. (Some k, NoneVal)) (drop (length row) H))"
proof -
  let ?z = "zip (map Some H) (map Text row)"
  have dz: "distinct (map fst ?z)"
    using assms keys_zip_fields [of H row] by (simp add: keys_def distinct_map inj_on_def)
  have z: "dict_of (=) ?z = ?z" by (rule dict_of_distinct [OF dz])
  show ?thesis
  proof (cases "length H < length row")
    case True
    have "None \<notin> set (keys ?z)" by (auto simp: keys_zip_fields)
    then show ?thesis using True by (simp add: dict_row_def z dict_set_fresh)
  next
    case False
    have "distinct (keys ?z @ map Some (drop (length row) H))"
      using assms by (simp add: keys_zip_fields take_map [symmetric] drop_map [symmetric]
          flip: map_append) (simp add: distinct_map)
    from foldl_restval_fresh [OF this] False show ?thesis
      by (simp add: dict_row_def z Let_def)
  qed
qed

lemma keys_dict_row_distinct_header:
  "distinct H \<Longrightarrow>
   keys (dict_row H row) = map Some H @ (if length H < length row then [None] else [])"
  apply (simp add: dict_row_distinct_header)
  apply (simp add: keys_def)
  apply (simp add: keys_zip_fields [unfolded keys_def] comp_def)
  apply (simp add: take_map [symmetric] drop_map [symmetric] flip: map_append)
  done


lemma foldl_restval_keeps:
  "dict_find (=) d (Some k) = Some NoneVal \<Longrightarrow>
   dict_find (=) (foldl (\<lambda>d key. dict_set (=) d (Some key) NoneVal) d ks) (Some k) = Some NoneVal"
  by (induction ks arbitrary: d) (auto simp: dict_find_dict_set)

lemma foldl_restval_sets:
  "k \<in> set ks \<Longrightarrow>
   dict_find (=) (foldl (\<lambda>d key. dict_set (=) d (Some key) NoneVal) d ks) (Some k) = Some NoneVal"
  by (induction ks arbitrary: d) (auto simp: dict_find_dict_set foldl_restval_keeps)

lemma set_keys_foldl_restval:
  "set (keys (foldl (\<lambda>d key. dict_set (=) d (Some key) NoneVal) d ks)) = set (keys d) \<union> Some ` set ks"
  by (induction ks arbitrary: d) (auto simp: keys_dict_set)

lemma set_keys_foldl_dict_set:
  "set (keys (foldl (\<lambda>d (k, v). dict_set (=) d k v) d ps)) = set (keys d) \<union> fst ` set ps"
  by (induction ps arbitrary: d) (auto simp: keys_dict_set split: prod.splits)

lemma set_keys_dict_of: "set (keys (dict_of (=) ps)) = fst ` set ps"
  by (simp add: dict_of_def set_keys_foldl_dict_set) (simp add: keys_def)

lemma set_keys_dict_row:
  "set (keys (dict_row H row)) = Some ` set H \<union> (if length H < length row then {None} else {})"
proof -
  have z: "fst ` set (zip (map Some H) (map Text row)) = Some ` set (take (length row) H)"
    using keys_zip_fields [of H row] by (simp add: keys_def flip: set_map)
  have td: "set (take (length row) H) \<union> set (drop (length row) H) = set H"
    by (simp flip: set_append)
  show ?thesis
  proof (cases "length H < length row")
    case True
    then show ?thesis
      by (auto simp: dict_row_def Let_def keys_dict_set set_keys_dict_of z)
  next
    case False
    then show ?thesis
      using td by (auto simp: dict_row_def Let_def set_keys_foldl_restval set_keys_dict_of z)
  qed
qed

lemma dict_row_short:
  assumes "length row \<le> i" "i < length H"
  shows "dict_find (=) (dict_row H row) (Some (H ! i)) = Some NoneVal"
proof -
  have "drop (length row) H ! (i - length row) = H ! i" using assms by simp
  moreover have "i - length row < length (drop (length row) H)" using assms by simp
  ultimately have "H ! i \<in> set (drop (length row) H)" by (metis nth_mem)
  with assms show ?thesis
    by (simp add: dict_row_def Let_def foldl_restval_sets)
qed

lemma dict_row_long:
  "length H < length row \<Longrightarrow>
   dict_find (=) (dict_row H row) None = Some (Rest (drop (length H) row))"
  by (simp add: dict_row_def Let_def dict_find_dict_set)

lemma dict_find_map_of: "dict_find (=) d k = map_of d k"
  by (induction d) auto

lemma dict_row_leading:
  assumes "distinct H" "i < length H" "i < length row"
  shows "dict_find (=) (dict_row H row) (Some (H ! i)) = Some (Text (row ! i))"
proof -
  let ?n = "min (length H) (length row)"
  let ?xs = "map Some (take ?n H)" and ?ys = "map Text (take ?n row)"
  have zz: "zip (map Some H) (map Text row) = zip ?xs ?ys"
    by (simp add: zip_map_map take_zip [symmetric])
  have "map_of (zip ?xs ?ys) (?xs ! i) = Some (?ys ! i)"
    using assms by (intro map_of_zip_nth) (simp_all add: distinct_map)
  with assms have "map_of (zip (map Some H) (map Text row)) (Some (H ! i)) = Some (Text (row ! i))"
    by (simp add: zz)
  then show ?thesis
    by (simp add: dict_row_distinct_header [OF assms(1)] dict_find_map_of)
qed

subsection \<open>What a row dict holds\<close>

lemma set_dict_set: "x \<in> set (dict_set (=) d k v) \<Longrightarrow> x = (k, v) \<or> x \<in> set d"
  by (induction d) (auto split: if_splits)

lemma set_foldl_dict_set:
  "x \<in> set (foldl (\<lambda>d (k, v). dict_set (=) d k v) d ps) \<Longrightarrow> x \<in> set d \<or> x \<in> set ps"
proof (induction ps arbitrary: d)
  case Nil
  then show ?case by simp
next
  case (Cons p ps)
  obtain k v where p: "p = (k, v)" by (cases p)
  from Cons.prems have "x \<in> set (foldl (\<lambda>d (k, v). dict_set (=) d k v) (dict_set (=) d k v) ps)"
    by (simp add: p)
  from Cons.IH [OF this] show ?case
    using set_dict_set [of x d k v] by (auto simp: p)
qed

lemma set_foldl_restval:
  "x \<in> set (foldl (\<lambda>d key. dict_set (=) d (Some key) NoneVal) d ks) \<Longrightarrow>
   x \<in> set d \<or> (\<exists>k. x = (Some k, NoneVal))"
proof (induction ks arbitrary: d)
  case Nil
  then show ?case by simp
next
  case (Cons k ks)
  from Cons.prems
  have "x \<in> set (foldl (\<lambda>d key. dict_set (=) d (Some key) NoneVal) (dict_set (=) d (Some k) NoneVal) ks)"
    by simp
  from Cons.IH [OF this] show ?case
    using set_dict_set [of x d "Some k" NoneVal] by auto
qed

lemma set_dict_of: "x \<in> set (dict_of (=) ps) \<Longrightarrow> x \<in> set ps"
  using set_foldl_dict_set [of x "[]" ps] by (simp add: dict_of_def)

lemma dict_row_values:
  assumes "(Some k, v) \<in> set (dict_row H row)"
  shows "v = NoneVal \<or> is_str v"
proof -
  let ?z = "zip (map Some H) (map Text row)"
  have "(Some k, v) \<in> set ?z \<or> v = NoneVal"
  proof (cases "length H < length row")
    case True
    with assms have "(Some k, v) \<in> set (dict_set (=) (dict_of (=) ?z) None (Rest (drop (length H) row)))"
      by (simp add: dict_row_def Let_def)
    from set_dict_set [OF this] have "(Some k, v) \<in> set (dict_of (=) ?z)" by simp
    then show ?thesis by (simp add: set_dict_of)
  next
    case False
    with assms have "(Some k, v) \<in> set (dict_of (=) ?z)
        \<or> (Some k, v) \<in> set (foldl (\<lambda>d key. dict_set (=) d (Some key) NoneVal) (dict_of (=) ?z)
                               (drop (length row) H))"
      by (simp add: dict_row_def Let_def split: if_splits)
    then show ?thesis
      using set_foldl_restval [of "(Some k, v)" "dict_of (=) ?z" "drop (length row) H"]
        set_dict_of [of "(Some k, v)" ?z]
      by auto
  qed
  then show ?thesis
    by (auto simp: is_str_def dest!: set_zip_rightD)
qed

lemma dict_find_in_set: "dict_find (=) d k = Some v \<Longrightarrow> (k, v) \<in> set d"
  by (induction d) (auto split: if_splits)

lemma in_set_dict_find: "distinct (keys d) \<Longrightarrow> (k, v) \<in> set d \<Longrightarrow> dict_find (=) d k = Some v"
  by (simp add: dict_find_map_of keys_def)

lemma row_get_dict_row:
  "row_get (dict_row H row) (Some k) = NoneVal \<or> is_str (row_get (dict_row H row) (Some k))"
  using dict_row_values [of k _ H row]
  by (auto simp: row_get_def dest!: dict_find_in_set split: option.splits)

lemma DatasetRow_ok_iff: "DatasetRow_ok r = (None \<notin> set (keys r))"
  by (force simp: DatasetRow_ok_def keys_def list_all_iff)

lemma DictReader_rows:
  "r \<in> set (DictReader records) \<Longrightarrow> \<exists>H row. r = dict_row H row"
  by (cases records) auto

subsection \<open>When the upload returns\<close>

lemma upload_dataset_returns:
  assumes ext: "endswith (lower filename) ''.csv''"
    and rws: "DictReader records = r0 # rest"
    and short: "\<forall>r\<in>set (r0 # rest). None \<notin> set (keys r)"
  shows "\<exists>ds. upload_dataset filename (Some records)
           = Inr \<lparr>columns = keys r0, rows = Suc (length rest), distincts = ds\<rparr>
         \<and> keys ds = keys r0
         \<and> (\<forall>c\<in>set (keys r0). dict_find (=) ds c =
               Some (foldl add_val [] (map (\<lambda>r. row_get r c) (r0 # rest))))"
proof -
  have rows_are: "\<And>r. r \<in> set (r0 # rest) \<Longrightarrow> \<exists>H row. r = dict_row H row"
    using DictReader_rows [of _ records] by (simp add: rws)
  from rows_are [of r0] have dist: "distinct (keys r0)"
    by (auto simp: distinct_keys_dict_row)
  from column_distincts_ok [OF dist, of "r0 # rest"] obtain ds where
    cd: "column_distincts (r0 # rest) (keys r0) = Inr ds"
    and k: "keys ds = keys r0"
    and f: "\<forall>c\<in>set (keys r0). dict_find (=) ds c =
               Some (foldl add_val [] (map (\<lambda>r. row_get r c) (r0 # rest)))"
    by blast
  from short have nokey: "None \<notin> set (keys r0)" by simp
  have vals: "list_all is_str vs" if "(c, vs) \<in> set ds" for c vs
  proof -
    from that have "c \<in> set (keys ds)" by (force simp: keys_def)
    with k have c: "c \<in> set (keys r0)" by simp
    with nokey obtain name where name: "c = Some name" by (cases c) auto
    from dist k that have "dict_find (=) ds c = Some vs" by (simp add: in_set_dict_find)
    with f c have vs: "vs = foldl add_val [] (map (\<lambda>r. row_get r c) (r0 # rest))" by simp
    have "is_str v" if "v \<in> set vs" for v
    proof -
      from that vs obtain r where r: "r \<in> set (r0 # rest)" and v: "v = row_get r c" and n: "v \<noteq> NoneVal"
        by (auto simp: foldl_add_val_set simp del: foldl_Cons)
      from rows_are [OF r] obtain H row where "r = dict_row H row" by blast
      with row_get_dict_row [of H row name] v n name show ?thesis by simp
    qed
    then show ?thesis by (simp add: list_all_iff)
  qed
  have cols_ok: "list_all (\<lambda>c. c \<noteq> None) (keys r0)"
    unfolding list_all_iff
  proof
    fix c assume "c \<in> set (keys r0)"
    with nokey show "c \<noteq> None" by (cases c) simp_all
  qed
  have "(case p of (c, vs) \<Rightarrow> c \<noteq> None \<and> list_all is_str vs)" if p: "p \<in> set ds" for p
  proof -
    obtain c vs where cv: "p = (c, vs)" by (cases p)
    from p have "c \<in> set (keys ds)" by (force simp: keys_def cv)
    with k nokey have "c \<noteq> None" by (cases c) simp_all
    with vals [of c vs] p show ?thesis unfolding cv by blast
  qed
  then have "list_all (\<lambda>(c, vs). c \<noteq> None \<and> list_all is_str vs) ds"
    unfolding list_all_iff by blast
  with cols_ok have dv: "DatasetVersion_ok (keys r0) ds"
    by (simp only: DatasetVersion_ok_def simp_thms)
  have dr: "list_all DatasetRow_ok (r0 # rest)"
    using short by (simp add: list_all_iff DatasetRow_ok_iff)
  have "upload_dataset filename (Some records)
           = Inr \<lparr>columns = keys r0, rows = Suc (length rest), distincts = ds\<rparr>"
    using cd dv dr by (simp add: upload_dataset_def ext rws)
  with k f show ?thesis by (intro exI [of _ ds] conjI)
qed

lemma upload_dataset_long_row:
  assumes ext: "endswith (lower filename) ''.csv''"
    and rws: "DictReader records = r0 # rest"
    and long: "\<exists>r\<in>set (r0 # rest). None \<in> set (keys r)"
  shows "upload_dataset filename (Some records) = Inl ValidationError"
proof -
  have "r0 \<in> set (DictReader records)" by (simp add: rws)
  from DictReader_rows [OF this] have dist: "distinct (keys r0)"
    by (auto simp: distinct_keys_dict_row)
  from column_distincts_ok [OF dist, of "r0 # rest"] obtain ds where
    cd: "column_distincts (r0 # rest) (keys r0) = Inr ds"
    by blast
  from long have "\<not> list_all DatasetRow_ok (r0 # rest)"
    by (simp add: list_all_iff DatasetRow_ok_iff)
  then show ?thesis
    using cd by (simp add: upload_dataset_def ext rws Let_def)
qed

lemma upload_dataset_InrD:
  assumes "upload_dataset f (Some recs) = Inr a"
  shows "endswith (lower f) ''.csv''"
    and "\<exists>r0 rest. DictReader recs = r0 # rest \<and> (\<forall>r\<in>set (r0 # rest). None \<notin> set (keys r))"
proof -
  from assms show ext: "endswith (lower f) ''.csv''"
    by (auto simp: upload_dataset_def split: if_splits)
  from assms ext obtain r0 rest where rws: "DictReader recs = r0 # rest"
    by (cases "DictReader recs") (auto simp: upload_dataset_def)
  have "\<forall>r\<in>set (r0 # rest). None \<notin> set (keys r)"
  proof (rule ccontr)
    assume "\<not> (\<forall>r\<in>set (r0 # rest). None \<notin> set (keys r))"
    then have "\<exists>r\<in>set (r0 # rest). None \<in> set (keys r)" by blast
    from upload_dataset_long_row [OF ext rws this] assms show False by simp
  qed
  with rws show "\<exists>r0 rest. DictReader recs = r0 # rest \<and> (\<forall>r\<in>set (r0 # rest). None \<notin> set (keys r))"
    by blast
qed

lemma None_key_iff_long: "(None \<in> set (keys (dict_row H row))) = (length H < length row)"
  by (auto simp: set_keys_dict_row)

text \<open>
  Every outcome of the handler: the file name, the reader, the number of rows, and
  the schema, in this order. The upload returns exactly when the name ends in
  \<open>.csv\<close>, the reader accepts the content, there is a data row, and no data row has
  more fields than the header.
\<close>

lemma upload_dataset_cases:
  "upload_dataset f parsed =
     (if \<not> endswith (lower f) ''.csv'' then Inl UnsupportedFormat
      else case parsed of
        None \<Rightarrow> Inl CsvError
      | Some recs \<Rightarrow>
          if DictReader recs = [] then Inl EmptyInput
          else if \<exists>row\<in>set (drop 1 recs). length (hd recs) < length row then Inl ValidationError
          else upload_dataset f parsed)
   \<and> (endswith (lower f) ''.csv'' \<and> parsed = Some recs \<and> DictReader recs \<noteq> []
        \<and> (\<forall>row\<in>set (drop 1 recs). length row \<le> length (hd recs))
        \<longrightarrow> (\<exists>a. upload_dataset f parsed = Inr a))"
proof (intro conjI impI)
  show "upload_dataset f parsed =
     (if \<not> endswith (lower f) ''.csv'' then Inl UnsupportedFormat
      else case parsed of
        None \<Rightarrow> Inl CsvError
      | Some recs \<Rightarrow>
          if DictReader recs = [] then Inl EmptyInput
          else if \<exists>row\<in>set (drop 1 recs). length (hd recs) < length row then Inl ValidationError
          else upload_dataset f parsed)"
  proof (cases "endswith (lower f) ''.csv''")
    case False
    then show ?thesis by (simp add: upload_dataset_def)
  next
    case ext: True
    show ?thesis
    proof (cases parsed)
      case None
      then show ?thesis by (simp add: upload_dataset_def ext)
    next
      case (Some recs)
      show ?thesis
      proof (cases "DictReader recs")
        case Nil
        then show ?thesis by (simp add: upload_dataset_def ext Some)
      next
        case (Cons r0 rest)
        show ?thesis
        proof (cases "\<exists>row\<in>set (drop 1 recs). length (hd recs) < length row")
          case False
          then show ?thesis by (simp add: ext Some Cons)
        next
          case True
          then obtain H rs where recs: "recs = H # rs" by (cases recs) auto
          from True obtain row where row: "row \<in> set rs" "length H < length row"
            by (auto simp: recs)
          then have "row \<noteq> []" by auto
          with row have "dict_row H row \<in> set (DictReader recs)" by (simp add: recs)
          with row have "\<exists>r\<in>set (r0 # rest). None \<in> set (keys r)"
            using None_key_iff_long [of H row] by (auto simp: Cons simp del: DictReader.simps)
          from upload_dataset_long_row [OF ext Cons this] True show ?thesis
            by (simp add: ext Some Cons)
        qed
      qed
    qed
  qed
next
  assume h: "endswith (lower f) ''.csv'' \<and> parsed = Some recs \<and> DictReader recs \<noteq> []
        \<and> (\<forall>row\<in>set (drop 1 recs). length row \<le> length (hd recs))"
  then obtain r0 rest where rws: "DictReader recs = r0 # rest" by (cases "DictReader recs") auto
  from h obtain H rs where recs: "recs = H # rs" by (cases recs) auto
  have "\<forall>r\<in>set (r0 # rest). None \<notin> set (keys r)"
  proof
    fix r assume "r \<in> set (r0 # rest)"
    then have "r \<in> set (DictReader recs)" by (simp add: rws)
    then have "r \<in> dict_row H ` set (filter (\<lambda>row. row \<noteq> []) rs)" by (simp add: recs)
    then obtain row where "row \<in> set rs" "r = dict_row H row" by auto
    with h show "None \<notin> set (keys r)" by (auto simp: recs None_key_iff_long)
  qed
  from upload_dataset_returns [OF _ rws this, of f] h show "\<exists>a. upload_dataset f parsed = Inr a"
    by auto
qed

subsection \<open>The upload on concrete files\<close>

text \<open>The definitions a concrete upload unfolds to.\<close>

lemmas upload_eval =
  upload_dataset_def endswith_def lower_def lower_char_def dict_row_def dict_of_def keys_def
  visit_def row_get_def Let_def column_distincts_def DatasetVersion_ok_def DatasetRow_ok_def
  is_str_def

subsection \<open>Outcomes of the upload\<close>

text \<open>
  C7 at a \<open>.csv\<close> file with one data row that has more fields than the header, and
  at a content the reader refuses. Both pass the check of the name and neither has
  zero data rows, yet the handler does not return: building \<^verbatim>\<open>DatasetVersion\<close> raises
  on the column \<^verbatim>\<open>None\<close>, and \<^verbatim>\<open>csv.Error\<close> leaves line 113.
\<close>

theorem upload_raises_after_checks:
  "upload_dataset ''d.csv'' (Some [[''a''], [''1'', ''2'']]) = Inl ValidationError
   \<and> upload_dataset ''d.csv'' None = Inl CsvError"
  by (simp add: upload_eval)

text \<open>
  C1 (as the code has it). Whenever the upload returns, the returned row count is the
  number of non-blank data records, and the returned columns are the header in its
  order if the header's names are pairwise distinct. The upload does return for a
  file named \<open>.csv\<close> with at least one non-blank data record and no data record
  longer than the header.
\<close>

theorem upload_columns_and_row_count:
  "(\<forall>a. upload_dataset f (Some (H # recs)) = Inr a \<longrightarrow>
        rows a = length (filter (\<lambda>row. row \<noteq> []) recs)
        \<and> (distinct H \<longrightarrow> columns a = map Some H))
   \<and> (endswith (lower f) ''.csv'' \<and> filter (\<lambda>row. row \<noteq> []) recs \<noteq> []
        \<and> (\<forall>row\<in>set recs. length row \<le> length H)
        \<longrightarrow> (\<exists>a. upload_dataset f (Some (H # recs)) = Inr a))"
proof (intro conjI allI impI)
  fix a assume ret: "upload_dataset f (Some (H # recs)) = Inr a"
  from upload_dataset_InrD [OF ret] obtain r0 rest where
    ext: "endswith (lower f) ''.csv''" and rws: "DictReader (H # recs) = r0 # rest"
    and short: "\<forall>r\<in>set (r0 # rest). None \<notin> set (keys r)"
    by blast
  from upload_dataset_returns [OF ext rws short] ret obtain ds where
    a: "a = \<lparr>columns = keys r0, rows = Suc (length rest), distincts = ds\<rparr>"
    by auto
  have "Suc (length rest) = length (DictReader (H # recs))" by (simp only: rws list.size)
  then show "rows a = length (filter (\<lambda>row. row \<noteq> []) recs)" by (simp add: a)
  show "columns a = map Some H" if dist: "distinct H"
  proof -
    from rws obtain first where r0: "r0 = dict_row H first"
      by (cases "filter (\<lambda>row. row \<noteq> []) recs") auto
    from short have "None \<notin> set (keys r0)" by simp
    then have "\<not> length H < length first" by (simp add: r0 None_key_iff_long)
    with dist show ?thesis by (simp add: a r0 keys_dict_row_distinct_header)
  qed
next
  assume h: "endswith (lower f) ''.csv'' \<and> filter (\<lambda>row. row \<noteq> []) recs \<noteq> []
        \<and> (\<forall>row\<in>set recs. length row \<le> length H)"
  then have "DictReader (H # recs) \<noteq> []" by simp
  with h upload_dataset_cases [of f "Some (H # recs)" "H # recs", THEN conjunct2]
  show "\<exists>a. upload_dataset f (Some (H # recs)) = Inr a" by simp
qed

text \<open>The two-column file of the specification, with a blank line among the data.\<close>

theorem upload_columns_and_row_count_witness:
  "\<exists>a. upload_dataset ''Data.CSV'' (Some [[''name'', ''age''], [''Alice'', ''30''], [], [''Bob'', ''25'']])
          = Inr a
       \<and> rows a = 2 \<and> columns a = [Some ''name'', Some ''age'']"
proof -
  have ext: "endswith (lower ''Data.CSV'') ''.csv''" by code_simp
  note t = upload_columns_and_row_count [of "''Data.CSV''" "[''name'', ''age'']"
      "[[''Alice'', ''30''], [], [''Bob'', ''25'']]"]
  from t [THEN conjunct2] ext obtain a where
    a: "upload_dataset ''Data.CSV'' (Some [[''name'', ''age''], [''Alice'', ''30''], [], [''Bob'', ''25'']])
          = Inr a"
    by auto
  from t [THEN conjunct1, rule_format, OF a] have "rows a = 2 \<and> columns a = [Some ''name'', Some ''age'']"
    by simp
  with a show ?thesis by blast
qed

text \<open>
  C1 as the specification states it fails for a header that names a column twice:
  the columns are the keys of the first row's dict, which holds each name once.
\<close>

theorem upload_duplicate_header_counterexample:
  "upload_dataset ''d.csv'' (Some [[''a'', ''a''], [''1'', ''2'']])
     = Inr \<lparr>columns = [Some ''a''], rows = 1, distincts = [(Some ''a'', [Text ''2''])]\<rparr>
   \<and> [Some ''a''] \<noteq> map Some [''a'', ''a'']"
  by (simp add: upload_eval)

text \<open>
  C2. For every column \<open>c\<close> of the returned column list, \<open>distincts\<close> holds a list for
  \<open>c\<close>; the list has no value twice; its values are exactly the non-null values
  \<open>r.get(c)\<close> over the rows; and they stand in the order of their first occurrences
  over the rows.
\<close>

theorem upload_distincts_first_occurrence:
  assumes "upload_dataset f (Some recs) = Inr a" and "c \<in> set (columns a)"
  shows "\<exists>ds. dict_find (=) (distincts a) c = Some ds \<and> distinct ds
     \<and> set ds = set (map (\<lambda>r. row_get r c) (DictReader recs)) - {NoneVal}
     \<and> (\<forall>i j. i < j \<and> j < length ds \<longrightarrow>
           first_index (map (\<lambda>r. row_get r c) (DictReader recs)) (ds ! i)
             < first_index (map (\<lambda>r. row_get r c) (DictReader recs)) (ds ! j))"
proof -
  from upload_dataset_InrD [OF assms(1)] obtain r0 rest where
    ext: "endswith (lower f) ''.csv''" and rws: "DictReader recs = r0 # rest"
    and short: "\<forall>r\<in>set (r0 # rest). None \<notin> set (keys r)"
    by blast
  from upload_dataset_returns [OF ext rws short] assms(1) obtain ds where
    a: "a = \<lparr>columns = keys r0, rows = Suc (length rest), distincts = ds\<rparr>"
    and f: "\<forall>c\<in>set (keys r0). dict_find (=) ds c =
               Some (foldl add_val [] (map (\<lambda>r. row_get r c) (r0 # rest)))"
    by auto
  let ?vals = "map (\<lambda>r. row_get r c) (DictReader recs)"
  from a f assms(2) have "dict_find (=) (distincts a) c = Some (foldl add_val [] ?vals)"
    by (simp add: rws)
  moreover have "distinct (foldl add_val [] ?vals)" by (simp add: foldl_add_val_distinct)
  moreover have "set (foldl add_val [] ?vals) = set ?vals - {NoneVal}"
    by (simp add: foldl_add_val_set)
  moreover have "\<forall>i j. i < j \<and> j < length (foldl add_val [] ?vals) \<longrightarrow>
           first_index ?vals (foldl add_val [] ?vals ! i) < first_index ?vals (foldl add_val [] ?vals ! j)"
    using foldl_add_val_order [of _ _ ?vals] by blast
  ultimately show ?thesis by blast
qed

text \<open>The column values a, b, a, c of the specification give the list a, b, c.\<close>

theorem upload_distincts_first_occurrence_witness:
  "upload_dataset ''d.csv'' (Some [[''x''], [''a''], [''b''], [''a''], [''c'']])
     = Inr \<lparr>columns = [Some ''x''], rows = 4,
            distincts = [(Some ''x'', [Text ''a'', Text ''b'', Text ''c''])]\<rparr>
   \<and> (\<exists>ds. dict_find (=) [(Some ''x'', [Text ''a'', Text ''b'', Text ''c''])] (Some ''x'') = Some ds
         \<and> distinct ds \<and> set ds = {Text ''a'', Text ''b'', Text ''c''})"
proof -
  have h: "upload_dataset ''d.csv'' (Some [[''x''], [''a''], [''b''], [''a''], [''c'']])
     = Inr \<lparr>columns = [Some ''x''], rows = 4,
            distincts = [(Some ''x'', [Text ''a'', Text ''b'', Text ''c''])]\<rparr>"
    by (simp add: upload_eval)
  have vals: "map (\<lambda>r. row_get r (Some ''x'')) (DictReader [[''x''], [''a''], [''b''], [''a''], [''c'']])
     = [Text ''a'', Text ''b'', Text ''a'', Text ''c'']"
    by (simp add: upload_eval)
  from upload_distincts_first_occurrence [OF h, of "Some ''x''"] h show ?thesis
    unfolding vals by auto
qed

subsection \<open>Rows shorter and longer than the header\<close>

text \<open>
  What the dict of a record holds: null under each column a short row does not
  reach, the surplus fields of a long row as a list under the key \<^verbatim>\<open>None\<close>, every
  header name as a key, and, for a header of distinct names, the field at its
  position under each column the row reaches.
\<close>

lemma dict_row_fields:
  "(\<forall>i. length row \<le> i \<and> i < length H \<longrightarrow>
       dict_find (=) (dict_row H row) (Some (H ! i)) = Some NoneVal)
   \<and> (length H < length row \<longrightarrow>
       dict_find (=) (dict_row H row) None = Some (Rest (drop (length H) row)))
   \<and> set (keys (dict_row H row)) = Some ` set H \<union> (if length H < length row then {None} else {})
   \<and> (distinct H \<longrightarrow> (\<forall>i. i < length H \<and> i < length row \<longrightarrow>
       dict_find (=) (dict_row H row) (Some (H ! i)) = Some (Text (row ! i))))
   \<and> DictReader (H # recs) = map (dict_row H) (filter (\<lambda>row. row \<noteq> []) recs)"
  by (simp add: dict_row_short dict_row_long set_keys_dict_row dict_row_leading)

text \<open>
  C8 at a row with one field more than the header. The dict of the row keeps the
  field under the key \<^verbatim>\<open>None\<close> instead of dropping it, and an upload with such a row
  after a regular one does not return: building \<^verbatim>\<open>DatasetRow\<close> for it raises.
\<close>

theorem dict_row_extra_fields_kept:
  "dict_row [''a''] [''1'', ''2''] = [(Some ''a'', Text ''1''), (None, Rest [''2''])]
   \<and> upload_dataset ''d.csv'' (Some [[''a''], [''1''], [''1'', ''2'']]) = Inl ValidationError"
  by (simp add: upload_eval)

end
